theory Spec2Isabelle
  imports
    Main
    "HOL-Library.Sublist"
    "HOL-Library.Char_ord"
    "HOL-Library.List_Lexorder"
    "HOL-Library.AList"
begin

section \<open>Strings\<close>

text \<open>
  Strings of the component are modelled as lists of characters with the code points 0 to
  255 (Latin-1), each character one code unit of the source's string. On these,
  \<^verbatim>\<open>toLowerCase\<close> maps the letters A..Z to a..z and the capitals U+00C0 to U+00DE,
  the multiplication sign U+00D7 apart, to the character 32 code points higher, and
  leaves every other character alone; \<^verbatim>\<open>trim\<close> strips white space (tab, line feed,
  vertical tab, form feed, carriage return, space, no-break space U+00A0) from both
  ends; \<^verbatim>\<open>s.includes(q)\<close> holds when \<open>q\<close> occurs in \<open>s\<close> as a contiguous block.
\<close>

definition upperCaseChars :: "char list" where
  "upperCaseChars =
     ''ABCDEFGHIJKLMNOPQRSTUVWXYZ'' @
     [CHR 0xC0, CHR 0xC1, CHR 0xC2, CHR 0xC3, CHR 0xC4, CHR 0xC5, CHR 0xC6, CHR 0xC7,
      CHR 0xC8, CHR 0xC9, CHR 0xCA, CHR 0xCB, CHR 0xCC, CHR 0xCD, CHR 0xCE, CHR 0xCF,
      CHR 0xD0, CHR 0xD1, CHR 0xD2, CHR 0xD3, CHR 0xD4, CHR 0xD5, CHR 0xD6,
      CHR 0xD8, CHR 0xD9, CHR 0xDA, CHR 0xDB, CHR 0xDC, CHR 0xDD, CHR 0xDE]"

definition lowerCaseChars :: "char list" where
  "lowerCaseChars =
     ''abcdefghijklmnopqrstuvwxyz'' @
     [CHR 0xE0, CHR 0xE1, CHR 0xE2, CHR 0xE3, CHR 0xE4, CHR 0xE5, CHR 0xE6, CHR 0xE7,
      CHR 0xE8, CHR 0xE9, CHR 0xEA, CHR 0xEB, CHR 0xEC, CHR 0xED, CHR 0xEE, CHR 0xEF,
      CHR 0xF0, CHR 0xF1, CHR 0xF2, CHR 0xF3, CHR 0xF4, CHR 0xF5, CHR 0xF6,
      CHR 0xF8, CHR 0xF9, CHR 0xFA, CHR 0xFB, CHR 0xFC, CHR 0xFD, CHR 0xFE]"

definition toLowerCaseChar :: "char \<Rightarrow> char" where
  "toLowerCaseChar c =
     (case map_of (zip upperCaseChars lowerCaseChars) c of
        Some d \<Rightarrow> d
      | None \<Rightarrow> c)"

definition toLowerCase :: "string \<Rightarrow> string" where
  "toLowerCase s = map toLowerCaseChar s"

definition isWhiteSpace :: "char \<Rightarrow> bool" where
  "isWhiteSpace c =
     (c \<in> set [CHR 0x09, CHR 0x0A, CHR 0x0B, CHR 0x0C, CHR 0x0D, CHR '' '', CHR 0xA0])"

definition trim :: "string \<Rightarrow> string" where
  "trim s = rev (dropWhile isWhiteSpace (rev (dropWhile isWhiteSpace s)))"

definition includes_str :: "string \<Rightarrow> string \<Rightarrow> bool" where
  "includes_str s q = sublist q s"

text \<open>\<^verbatim>\<open>s.split(':')\<close>: the pieces between the colons; never empty.\<close>

fun split_colon :: "string \<Rightarrow> string list" where
  "split_colon [] = [[]]"
| "split_colon (c # cs) =
     (if c = CHR '':'' then [] # split_colon cs
      else (case split_colon cs of
              [] \<Rightarrow> [[c]]
            | p # ps \<Rightarrow> (c # p) # ps))"

text \<open>
  \<^verbatim>\<open>position.toString()\<close> for an integer position: its decimal digits, with a
  leading minus sign for a negative number.
\<close>

definition digitChar :: "nat \<Rightarrow> char" where
  "digitChar d = ''0123456789'' ! d"

function natToString :: "nat \<Rightarrow> string" where
  "natToString n = (if n < 10 then [digitChar n] else natToString (n div 10) @ [digitChar (n mod 10)])"
  by pat_completeness auto
termination
  by (relation "measure id") auto

declare natToString.simps [simp del]

definition toString :: "int \<Rightarrow> string" where
  "toString i = (if i < 0 then CHR ''-'' # natToString (nat (- i)) else natToString (nat i))"

text \<open>A string-valued optional field is truthy when it is present and not empty.\<close>

definition truthy :: "string option \<Rightarrow> bool" where
  "truthy s = (case s of None \<Rightarrow> False | Some t \<Rightarrow> t \<noteq> [])"

section \<open>Data model\<close>

text \<open>
  The \<^verbatim>\<open>hgvs\<close> field of a variant is absent, a single string, or an array of
  strings.
\<close>

datatype hgvs_value = HgvsString string | HgvsArray "string list"

datatype variant = Variant
  (position: int)
  (ref: string)
  (alt: string)
  (type_v: string)
  (patient: string)
  (filter_v: "string option")
  (consequence: "string option")
  (hgvs: "hgvs_value option")
  (polymorphism: "variant list option")

record hgvs_state =
  loading :: bool
  error :: bool
  alternatives :: "string list"

text \<open>
  The component: its inputs (\<open>variants\<close>, \<open>jobId\<close>, \<open>hgvsAlternatives\<close>) and its
  signals. \<open>hgvsAlternatives\<close> is \<open>None\<close> when the input is null or undefined.
\<close>

record component =
  variants :: "variant list"
  jobId :: "string option"
  hgvsAlternatives :: "(string \<times> string list) list option"
  searchTerm :: string
  filterType :: string
  filterPatient :: string
  filterConsequence :: string
  filterQuality :: string
  hgvsStates :: "string \<rightharpoonup> hgvs_state"

record overrides =
  ov_type :: "string option"
  ov_patient :: "string option"
  ov_quality :: "string option"
  ov_consequence :: "string option"

definition no_overrides :: overrides where
  "no_overrides = \<lparr>ov_type = None, ov_patient = None, ov_quality = None, ov_consequence = None\<rparr>"

section \<open>Involved patients and HGVS resolution\<close>

text \<open>A JavaScript \<^verbatim>\<open>Set\<close> keeps its members in insertion order, each once.\<close>

definition set_add :: "'a \<Rightarrow> 'a list \<Rightarrow> 'a list" where
  "set_add x s = (if x \<in> set s then s else s @ [x])"

definition companions :: "variant \<Rightarrow> variant list" where
  "companions v = (case polymorphism v of None \<Rightarrow> [] | Some ps \<Rightarrow> ps)"

definition getInvolvedPatients :: "variant \<Rightarrow> string list" where
  "getInvolvedPatients v =
     sort (foldl (\<lambda>patients p. set_add (patient p) patients) (set_add (patient v) []) (companions v))"

definition getHgvsKey :: "variant \<Rightarrow> string" where
  "getHgvsKey v =
     (case hgvs v of
        Some (HgvsArray (h # hs)) \<Rightarrow> h
      | Some (HgvsString s) \<Rightarrow> if s \<noteq> [] \<and> trim s \<noteq> [] then s else toString (position v)
      | _ \<Rightarrow> toString (position v))"

text \<open>The raw \<^verbatim>\<open>hgvs\<close> field as a sequence: the last three lines of \<^verbatim>\<open>getHgvs\<close>.\<close>

definition rawHgvs :: "variant \<Rightarrow> string list" where
  "rawHgvs v =
     (case hgvs v of
        None \<Rightarrow> []
      | Some (HgvsString s) \<Rightarrow> if s = [] then [] else [s]
      | Some (HgvsArray hs) \<Rightarrow> hs)"

definition getHgvs :: "component \<Rightarrow> variant \<Rightarrow> string list" where
  "getHgvs c v =
     (case hgvsStates c (getHgvsKey v) of
        Some state \<Rightarrow> if length (alternatives state) > 0 then alternatives state else rawHgvs v
      | None \<Rightarrow> rawHgvs v)"

section \<open>The filter engine\<close>

text \<open>The body of the search stage, shared by \<open>applyFilters\<close> and \<open>ensureVariantVisible\<close>.\<close>

definition matchesSearch :: "component \<Rightarrow> string \<Rightarrow> variant \<Rightarrow> bool" where
  "matchesSearch c search v =
     (let mutation = toLowerCase (ref v @ toString (position v) @ alt v);
          posStr = toString (position v);
          involvedPatients = map toLowerCase (getInvolvedPatients v);
          hgvsLower = map toLowerCase (getHgvs c v)
      in includes_str mutation search \<or>
         includes_str posStr search \<or>
         list_ex (\<lambda>p. includes_str p search) involvedPatients \<or>
         list_ex (\<lambda>h. includes_str h search) hgvsLower)"

definition qualityStage :: "string \<Rightarrow> variant \<Rightarrow> bool" where
  "qualityStage qualityFilter v =
     (if \<not> truthy (filter_v v) then True else filter_v v = Some qualityFilter)"

definition typeStage :: "string \<Rightarrow> variant \<Rightarrow> bool" where
  "typeStage typeFilter v = (toLowerCase (type_v v) = typeFilter)"

definition patientStage :: "string \<Rightarrow> variant \<Rightarrow> bool" where
  "patientStage patientFilter v =
     (if patient v = patientFilter then True
      else (case polymorphism v of
              Some ps \<Rightarrow> list_ex (\<lambda>p. patient p = patientFilter) ps
            | None \<Rightarrow> False))"

definition consequenceStage :: "string \<Rightarrow> variant \<Rightarrow> bool" where
  "consequenceStage consequenceFilter v = (consequence v = Some consequenceFilter)"

definition orElse :: "'a option \<Rightarrow> 'a \<Rightarrow> 'a" where
  "orElse x d = (case x of Some y \<Rightarrow> y | None \<Rightarrow> d)"

definition applyFilters :: "component \<Rightarrow> overrides \<Rightarrow> variant list" where
  "applyFilters c ov =
     (let list0 = variants c;
          search = trim (toLowerCase (searchTerm c));
          typeFilter = toLowerCase (orElse (ov_type ov) (filterType c));
          patientFilter = orElse (ov_patient ov) (filterPatient c);
          qualityFilter = orElse (ov_quality ov) (filterQuality c);
          consequenceFilter = orElse (ov_consequence ov) (filterConsequence c);
          list1 = (if qualityFilter \<noteq> ''All'' then filter (qualityStage qualityFilter) list0 else list0);
          list2 = (if typeFilter \<noteq> ''all'' then filter (typeStage typeFilter) list1 else list1);
          list3 = (if patientFilter \<noteq> ''All'' then filter (patientStage patientFilter) list2 else list2);
          list4 = (if consequenceFilter \<noteq> ''All'' then filter (consequenceStage consequenceFilter) list3 else list3);
          list5 = (if search \<noteq> [] then filter (matchesSearch c search) list4 else list4)
      in list5)"

text \<open>A record passes the filters when \<open>applyFilters\<close>, run on that record alone, keeps it.\<close>

definition passesFilters :: "component \<Rightarrow> overrides \<Rightarrow> variant \<Rightarrow> bool" where
  "passesFilters c ov v = (applyFilters (c\<lparr>variants := [v]\<rparr>) ov = [v])"

section \<open>Facet counts\<close>

text \<open>
  A counts object is an association list with one entry per key, in the order in which
  the keys were first written; \<^verbatim>\<open>counts[k] = (counts[k] ?? 0) + 1\<close> is \<open>increment\<close>.
  Facet values are taken to be ordinary strings, none of them the name of a property that
  every JavaScript object inherits.
\<close>

type_synonym counts = "(string \<times> nat) list"

definition increment :: "string \<Rightarrow> counts \<Rightarrow> counts" where
  "increment k counts = AList.update k (orElse (map_of counts k) 0 + 1) counts"



definition patientCounts :: "component \<Rightarrow> counts" where
  "patientCounts c =
     (let baseFiltered = applyFilters c (no_overrides\<lparr>ov_patient := Some ''All''\<rparr>);
          counts = foldl (\<lambda>counts v.
                     foldl (\<lambda>counts p. increment p counts) counts (getInvolvedPatients v))
                     [] baseFiltered
      in AList.update ''All'' (length baseFiltered) counts)"



section \<open>Filter state operations\<close>

definition updateSearchTerm :: "string \<Rightarrow> component \<Rightarrow> component" where
  "updateSearchTerm term c = c\<lparr>searchTerm := term\<rparr>"

definition setQualityFilter :: "string \<Rightarrow> component \<Rightarrow> component" where
  "setQualityFilter quality c = c\<lparr>filterQuality := quality\<rparr>"

definition setFilter :: "string \<Rightarrow> component \<Rightarrow> component" where
  "setFilter t c = c\<lparr>filterType := t\<rparr>"

definition setPatientFilter :: "string \<Rightarrow> component \<Rightarrow> component" where
  "setPatientFilter p c = c\<lparr>filterPatient := p\<rparr>"

definition setConsequenceFilter :: "string \<Rightarrow> component \<Rightarrow> component" where
  "setConsequenceFilter q c = c\<lparr>filterConsequence := q\<rparr>"

text \<open>
  \<open>ensureVariantVisible\<close> is five conditional blocks in a row. Each reads the state the
  previous one left and either resets its own dimension and sets \<open>needsUpdate\<close>, or
  leaves both alone. The function returns \<open>needsUpdate\<close>, here together with the final
  state.
\<close>

definition checkSearch :: "variant \<Rightarrow> bool \<times> component \<Rightarrow> bool \<times> component" where
  "checkSearch v = (\<lambda>(needsUpdate, c).
     let search = trim (toLowerCase (searchTerm c))
     in if search \<noteq> [] \<and> \<not> matchesSearch c search v
        then (True, c\<lparr>searchTerm := []\<rparr>) else (needsUpdate, c))"

definition checkType :: "variant \<Rightarrow> bool \<times> component \<Rightarrow> bool \<times> component" where
  "checkType v = (\<lambda>(needsUpdate, c).
     if filterType c \<noteq> ''All'' \<and> toLowerCase (filterType c) \<noteq> toLowerCase (type_v v)
     then (True, c\<lparr>filterType := ''All''\<rparr>) else (needsUpdate, c))"

definition checkPatient :: "variant \<Rightarrow> bool \<times> component \<Rightarrow> bool \<times> component" where
  "checkPatient v = (\<lambda>(needsUpdate, c).
     if filterPatient c \<noteq> ''All'' \<and> filterPatient c \<notin> set (getInvolvedPatients v)
     then (True, c\<lparr>filterPatient := ''All''\<rparr>) else (needsUpdate, c))"

definition checkQuality :: "variant \<Rightarrow> bool \<times> component \<Rightarrow> bool \<times> component" where
  "checkQuality v = (\<lambda>(needsUpdate, c).
     if filterQuality c \<noteq> ''All'' \<and> truthy (filter_v v) \<and> filter_v v \<noteq> Some (filterQuality c)
     then (True, c\<lparr>filterQuality := ''All''\<rparr>) else (needsUpdate, c))"

definition checkConsequence :: "variant \<Rightarrow> bool \<times> component \<Rightarrow> bool \<times> component" where
  "checkConsequence v = (\<lambda>(needsUpdate, c).
     if filterConsequence c \<noteq> ''All'' \<and> consequence v \<noteq> Some (filterConsequence c)
     then (True, c\<lparr>filterConsequence := ''All''\<rparr>) else (needsUpdate, c))"

definition ensureVariantVisible :: "component \<Rightarrow> variant \<Rightarrow> bool \<times> component" where
  "ensureVariantVisible c v =
     checkConsequence v (checkQuality v (checkPatient v (checkType v (checkSearch v (False, c)))))"

text \<open>
  A dimension excludes a record under the live state when the stage of \<open>applyFilters\<close>
  for that dimension is active and its predicate rejects the record.
\<close>

definition excludesSearch :: "component \<Rightarrow> variant \<Rightarrow> bool" where
  "excludesSearch c v =
     (trim (toLowerCase (searchTerm c)) \<noteq> [] \<and>
      \<not> matchesSearch c (trim (toLowerCase (searchTerm c))) v)"

definition excludesType :: "component \<Rightarrow> variant \<Rightarrow> bool" where
  "excludesType c v =
     (toLowerCase (filterType c) \<noteq> ''all'' \<and> \<not> typeStage (toLowerCase (filterType c)) v)"

definition excludesPatient :: "component \<Rightarrow> variant \<Rightarrow> bool" where
  "excludesPatient c v = (filterPatient c \<noteq> ''All'' \<and> \<not> patientStage (filterPatient c) v)"

definition excludesQuality :: "component \<Rightarrow> variant \<Rightarrow> bool" where
  "excludesQuality c v = (filterQuality c \<noteq> ''All'' \<and> \<not> qualityStage (filterQuality c) v)"

definition excludesConsequence :: "component \<Rightarrow> variant \<Rightarrow> bool" where
  "excludesConsequence c v =
     (filterConsequence c \<noteq> ''All'' \<and> \<not> consequenceStage (filterConsequence c) v)"

section \<open>The annotation cache\<close>

text \<open>
  The body of the effect registered by the constructor. The framework runs it once
  when the component is created and again whenever a signal it reads changes: the
  \<open>hgvsAlternatives\<close> input, and the \<open>variants\<close> input through \<open>availableQualities\<close>.
\<close>

definition seedStates :: "(string \<times> string list) list option \<Rightarrow> (string \<rightharpoonup> hgvs_state)" where
  "seedStates inputAlts =
     (case inputAlts of
        None \<Rightarrow> Map.empty
      | Some entries \<Rightarrow>
          foldl (\<lambda>initialMap (key, alts).
                   initialMap(key \<mapsto> \<lparr>loading = False, error = False, alternatives = alts\<rparr>))
            Map.empty entries)"

definition availableQualities :: "component \<Rightarrow> string list" where
  "availableQualities c =
     sort (foldl (\<lambda>qualities v.
                    if truthy (filter_v v) then set_add (the (filter_v v)) qualities
                    else qualities) [] (variants c))"

definition constructorEffect :: "component \<Rightarrow> component" where
  "constructorEffect c =
     (let initialMap = seedStates (hgvsAlternatives c);
          c1 = c\<lparr>hgvsStates := initialMap\<rparr>;
          qualities = availableQualities c1
      in if ''PASS'' \<in> set qualities then c1\<lparr>filterQuality := ''PASS''\<rparr>
         else c1\<lparr>filterQuality := ''All''\<rparr>)"

text \<open>
  \<open>fetchHgvsAlternatives\<close> is asynchronous. Its model is the sequence of actions one
  call performs, in order: writes to \<open>hgvsStates\<close> and calls of the collaborators. The
  results of the two awaited calls are parameters: \<open>lookup\<close> is how
  \<^verbatim>\<open>getHgvsAlternatives\<close> settles and \<open>persist\<close> how \<^verbatim>\<open>addJobHgvsAlternatives\<close>
  settles; \<open>jId\<close> is the value of the \<open>jobId\<close> input read after the lookup. Each write
  applies to the state of the moment it is performed, as \<^verbatim>\<open>hgvsStates.update\<close>
  does, so other operations may run between the actions.
\<close>

datatype action =
    SetHgvsState string hgvs_state
  | GetHgvsAlternatives string int string string
  | ToastShow string string
  | AddJobHgvsAlternatives string string "string list"
  | ConsoleError

datatype 'a settled = Fulfilled 'a | Rejected

definition loadingState :: hgvs_state where
  "loadingState = \<lparr>loading = True, error = False, alternatives = []\<rparr>"

definition successState :: "string list \<Rightarrow> hgvs_state" where
  "successState alts = \<lparr>loading = False, error = False, alternatives = alts\<rparr>"

definition errorState :: hgvs_state where
  "errorState = \<lparr>loading = False, error = True, alternatives = []\<rparr>"

definition catchBlock :: "string \<Rightarrow> action list" where
  "catchBlock key = [ConsoleError, SetHgvsState key errorState]"

text \<open>The \<^verbatim>\<open>try\<close> block from the point where the lookup settles.\<close>

definition afterLookup ::
  "string \<Rightarrow> string \<Rightarrow> string option \<Rightarrow> string list settled \<Rightarrow> unit settled \<Rightarrow> action list" where
  "afterLookup key primary jId lookup persist =
     (case lookup of
        Rejected \<Rightarrow> catchBlock key
      | Fulfilled alts \<Rightarrow>
          [SetHgvsState key (successState alts), ToastShow ''Alternatives received'' ''success''] @
          (if truthy jId
           then AddJobHgvsAlternatives (the jId) primary alts #
                (case persist of Rejected \<Rightarrow> catchBlock key | Fulfilled u \<Rightarrow> [])
           else []))"

definition fetchHgvsAlternatives ::
  "component \<Rightarrow> variant \<Rightarrow> string option \<Rightarrow> string list settled \<Rightarrow> unit settled \<Rightarrow> action list" where
  "fetchHgvsAlternatives c v jId lookup persist =
     (let key = getHgvsKey v;
          currentHgvs = getHgvs c v
      in if length currentHgvs > 1 then []
         else if length currentHgvs = 0 then []
         else
           let primary = currentHgvs ! 0;
               parts = split_colon primary
           in if length parts < 2 then []
              else
                let transcript = parts ! 0
                in [SetHgvsState key loadingState,
                    GetHgvsAlternatives transcript (position v) (ref v) (alt v)] @
                   afterLookup key primary jId lookup persist)"

fun perform :: "action \<Rightarrow> component \<Rightarrow> component" where
  "perform (SetHgvsState key st) c = c\<lparr>hgvsStates := (hgvsStates c)(key \<mapsto> st)\<rparr>"
| "perform a c = c"

definition run :: "action list \<Rightarrow> component \<Rightarrow> component" where
  "run acts c = foldl (\<lambda>c a. perform a c) c acts"

definition getHgvsState :: "component \<Rightarrow> variant \<Rightarrow> hgvs_state option" where
  "getHgvsState c v = hgvsStates c (getHgvsKey v)"

section \<open>Sessions\<close>

text \<open>
  What can happen to a component during a view session: the parent passes new inputs
  (which re-runs the constructor's effect), a filter operation is called, or one action
  of a fetch is performed.
\<close>

datatype operation =
    InputsChanged "variant list" "(string \<times> string list) list option"
  | UpdateSearchTerm string
  | SetQualityFilter string
  | SetFilter string
  | SetPatientFilter string
  | SetConsequenceFilter string
  | EnsureVariantVisible variant
  | Perform action

fun step :: "operation \<Rightarrow> component \<Rightarrow> component" where
  "step (InputsChanged vs inputAlts) c =
     constructorEffect (c\<lparr>variants := vs, hgvsAlternatives := inputAlts\<rparr>)"
| "step (UpdateSearchTerm term) c = updateSearchTerm term c"
| "step (SetQualityFilter q) c = setQualityFilter q c"
| "step (SetFilter t) c = setFilter t c"
| "step (SetPatientFilter p) c = setPatientFilter p c"
| "step (SetConsequenceFilter q) c = setConsequenceFilter q c"
| "step (EnsureVariantVisible v) c = snd (ensureVariantVisible c v)"
| "step (Perform a) c = perform a c"

definition session :: "operation list \<Rightarrow> component \<Rightarrow> component" where
  "session ops c = foldl (\<lambda>c op. step op c) c ops"

fun isInputsChanged :: "operation \<Rightarrow> bool" where
  "isInputsChanged (InputsChanged vs inputAlts) = True"
| "isInputsChanged op = False"

fun writesKey :: "string \<Rightarrow> operation \<Rightarrow> bool" where
  "writesKey k (Perform (SetHgvsState key st)) = (key = k)"
| "writesKey k op = False"

section \<open>Example data\<close>

text \<open>Three records and a component in its neutral state, used to instantiate the theorems.\<close>

definition exV100 :: variant where
  "exV100 = Variant 100 ''A'' ''G'' ''SNV'' ''P1'' (Some ''PASS'') (Some ''missense_variant'')
     (Some (HgvsString ''NM_001:c.100A>G'')) None"

definition exV200 :: variant where
  "exV200 = Variant 200 ''C'' ''T'' ''Indel'' ''P2'' (Some ''LOW'') None None
     (Some [Variant 200 ''C'' ''T'' ''Indel'' ''P3'' None None None None,
            Variant 200 ''C'' ''T'' ''Indel'' ''P1'' None None None None,
            Variant 200 ''C'' ''T'' ''Indel'' ''P3'' None None None None])"

definition exV300 :: variant where
  "exV300 = Variant 300 ''G'' ''C'' ''SNV'' ''P2'' (Some '''') None None None"

definition exComponent :: component where
  "exComponent = \<lparr>variants = [exV100, exV200, exV300], jobId = Some ''job1'',
          hgvsAlternatives = Some [],
          searchTerm = [], filterType = ''All'', filterPatient = ''All'',
          filterConsequence = ''All'', filterQuality = ''All'', hgvsStates = Map.empty\<rparr>"

text \<open>
  The same component with a search string, which ends in a no-break space, and a cached
  entry under the key \<open>300\<close>.
\<close>

definition exCached :: component where
  "exCached = exComponent\<lparr>searchTerm := '' NM_001'' @ [CHR 0xA0],
      hgvsStates := [''300'' \<mapsto> successState [''NM_001:c.300G>C'', ''ENST01:c.300G>C'']]\<rparr>"

text \<open>
  A record whose patient identifier has a capital outside A..Z (U+00D1), and a component
  that searches for the identifier in lower case (U+00F1).
\<close>

definition exV600 :: variant where
  "exV600 = Variant 600 ''T'' ''A'' ''SNV'' (''MU'' @ [CHR 0xD1] @ ''OZ'') None None None None"

definition exLatin :: component where
  "exLatin = exComponent\<lparr>variants := [exV100, exV600],
      searchTerm := ''mu'' @ [CHR 0xF1] @ ''oz''\<rparr>"


text \<open>A record whose \<open>hgvs\<close> field is a blank string: a space and a no-break space.\<close>

definition exV700 :: variant where
  "exV700 = Variant 700 ''T'' ''A'' ''SNV'' ''P7'' None None
     (Some (HgvsString [CHR '' '', CHR 0xA0])) None"

text \<open>Records with a raw HGVS name, a lookup result and a short session.\<close>

definition exV400 :: variant where
  "exV400 = Variant 400 ''G'' ''C'' ''SNV'' ''P4'' None None
     (Some (HgvsString ''NM_001:c.300G>C'')) None"

definition exAlts :: "string list" where
  "exAlts = [''ENST01:c.100A>G'', ''NM_001:c.100A>G'']"

definition exV500 :: variant where
  "exV500 = Variant 500 ''G'' ''C'' ''SNV'' ''P5'' None None
     (Some (HgvsArray [''NM_001:c.300G>C'', ''ENST01:c.300G>C''])) None"

definition exOps :: "operation list" where
  "exOps = [Perform (SetHgvsState ''NM_001:c.100A>G'' loadingState),
            SetFilter ''SNV'',
            Perform (SetHgvsState ''NM_001:c.100A>G'' (successState exAlts)),
            EnsureVariantVisible exV200,
            UpdateSearchTerm ''P1'']"

section \<open>Auxiliary lemmas\<close>

subsection \<open>Strings\<close>

lemma length_caseChars: "length upperCaseChars = length lowerCaseChars"
  by (simp add: upperCaseChars_def lowerCaseChars_def)

lemma toLowerCaseChar_id:
  "c \<notin> set upperCaseChars \<Longrightarrow> toLowerCaseChar c = c"
proof -
  assume "c \<notin> set upperCaseChars"
  then have "map_of (zip upperCaseChars lowerCaseChars) c = None"
    by (simp add: map_of_zip_is_None [OF length_caseChars])
  then show ?thesis by (simp only: toLowerCaseChar_def option.case)
qed

lemma digitChar_in: "d < 10 \<Longrightarrow> digitChar d \<in> set ''0123456789''"
proof -
  assume "d < 10"
  then have "d \<in> {0,1,2,3,4,5,6,7,8,9}" by auto
  then show ?thesis unfolding digitChar_def by (elim insertE) simp_all
qed

lemma toLowerCaseChar_digitChar: "d < 10 \<Longrightarrow> toLowerCaseChar (digitChar d) = digitChar d"
proof (rule toLowerCaseChar_id)
  assume "d < 10"
  then have "digitChar d \<in> set ''0123456789''" by (rule digitChar_in)
  then show "digitChar d \<notin> set upperCaseChars" by (auto simp: upperCaseChars_def)
qed

lemma toLowerCase_natToString: "toLowerCase (natToString n) = natToString n"
proof (induction n rule: natToString.induct)
  case (1 n)
  have d: "toLowerCaseChar (digitChar (n mod 10)) = digitChar (n mod 10)"
    by (simp add: toLowerCaseChar_digitChar)
  show ?case
  proof (cases "n < 10")
    case True
    then show ?thesis
      by (subst (1 2) natToString.simps) (simp add: toLowerCase_def toLowerCaseChar_digitChar)
  next
    case False
    with 1 d show ?thesis
      by (subst (1 2) natToString.simps) (simp add: toLowerCase_def)
  qed
qed

lemma toLowerCase_toString: "toLowerCase (toString i) = toString i"
proof -
  have "toLowerCaseChar CHR ''-'' = CHR ''-''"
    by (rule toLowerCaseChar_id) (simp add: upperCaseChars_def)
  then show ?thesis
    using toLowerCase_natToString [of "nat i"] toLowerCase_natToString [of "nat (- i)"]
    by (simp add: toString_def toLowerCase_def)
qed

lemma isWhiteSpace_toLowerCaseChar: "isWhiteSpace c \<Longrightarrow> toLowerCaseChar c = c"
  by (rule toLowerCaseChar_id) (auto simp: isWhiteSpace_def upperCaseChars_def)

lemma trim_all_space:
  assumes "\<forall>ch \<in> set s. isWhiteSpace ch"
  shows "trim (toLowerCase s) = []"
proof -
  from assms have l: "toLowerCase s = s"
    by (simp add: toLowerCase_def isWhiteSpace_toLowerCaseChar map_idI)
  from assms have d: "dropWhile isWhiteSpace s = []"
    by (simp add: dropWhile_eq_Nil_conv)
  show ?thesis unfolding trim_def l d by simp
qed

lemma split_colon_nonempty: "split_colon s \<noteq> []"
  by (induction s) (auto split: list.splits)

lemma split_colon_length: "length (split_colon s) = Suc (length (filter (\<lambda>c. c = CHR '':'') s))"
  by (induction s) (auto split: list.splits simp: split_colon_nonempty)

lemma split_colon_short: "length (split_colon s) < 2 \<longleftrightarrow> CHR '':'' \<notin> set s"
  by (auto simp: split_colon_length filter_empty_conv less_Suc_eq)

lemma split_colon_hd: "split_colon s ! 0 = takeWhile (\<lambda>c. c \<noteq> CHR '':'') s"
  by (induction s) (auto split: list.splits simp: split_colon_nonempty)

lemma set_foldl_set_add:
  "set (foldl (\<lambda>s p. set_add (f p) s) s0 xs) = set s0 \<union> f ` set xs"
  by (induction xs arbitrary: s0) (auto simp: set_add_def)

lemma distinct_foldl_set_add:
  "distinct s0 \<Longrightarrow> distinct (foldl (\<lambda>s p. set_add (f p) s) s0 xs)"
  by (induction xs arbitrary: s0) (auto simp: set_add_def)

lemma set_add_Nil: "set_add x [] = [x]"
  by (simp add: set_add_def)

lemma set_getInvolvedPatients:
  "set (getInvolvedPatients v) = insert (patient v) (patient ` set (companions v))"
  unfolding getInvolvedPatients_def set_add_Nil
  by (simp only: set_sort set_foldl_set_add) simp

lemma distinct_getInvolvedPatients: "distinct (getInvolvedPatients v)"
  unfolding getInvolvedPatients_def set_add_Nil
  by (simp only: distinct_sort) (rule distinct_foldl_set_add, simp)

lemma sorted_getInvolvedPatients: "sorted (getInvolvedPatients v)"
  by (simp add: getInvolvedPatients_def)

lemma patientStage_iff: "patientStage p v \<longleftrightarrow> p \<in> set (getInvolvedPatients v)"
  by (auto simp: patientStage_def set_getInvolvedPatients companions_def list_ex_iff
      split: option.splits)

lemma getHgvs_variants [simp]: "getHgvs (c\<lparr>variants := vs\<rparr>) v = getHgvs c v"
  by (simp add: getHgvs_def)

lemma getHgvs_searchTerm [simp]: "getHgvs (c\<lparr>searchTerm := s\<rparr>) v = getHgvs c v"
  by (simp add: getHgvs_def)

lemma matchesSearch_variants [simp]: "matchesSearch (c\<lparr>variants := vs\<rparr>) = matchesSearch c"
  by (rule ext, rule ext) (simp add: matchesSearch_def)

lemma matchesSearch_searchTerm [simp]: "matchesSearch (c\<lparr>searchTerm := s\<rparr>) = matchesSearch c"
  by (rule ext, rule ext) (simp add: matchesSearch_def)

text \<open>The five stages as one filter over the input list.\<close>

lemma applyFilters_filter:
  "applyFilters c ov =
     filter (\<lambda>v.
        (orElse (ov_quality ov) (filterQuality c) = ''All'' \<or>
           qualityStage (orElse (ov_quality ov) (filterQuality c)) v) \<and>
        (toLowerCase (orElse (ov_type ov) (filterType c)) = ''all'' \<or>
           typeStage (toLowerCase (orElse (ov_type ov) (filterType c))) v) \<and>
        (orElse (ov_patient ov) (filterPatient c) = ''All'' \<or>
           patientStage (orElse (ov_patient ov) (filterPatient c)) v) \<and>
        (orElse (ov_consequence ov) (filterConsequence c) = ''All'' \<or>
           consequenceStage (orElse (ov_consequence ov) (filterConsequence c)) v) \<and>
        (trim (toLowerCase (searchTerm c)) = [] \<or>
           matchesSearch c (trim (toLowerCase (searchTerm c))) v))
      (variants c)"
  unfolding applyFilters_def Let_def
  by (auto intro!: filter_cong)

lemma orElse_simps [simp]: "orElse (Some x) d = x" "orElse None d = d"
  by (simp_all add: orElse_def)

lemma passesFilters_iff:
  "passesFilters c ov v \<longleftrightarrow>
        (orElse (ov_quality ov) (filterQuality c) = ''All'' \<or>
           qualityStage (orElse (ov_quality ov) (filterQuality c)) v) \<and>
        (toLowerCase (orElse (ov_type ov) (filterType c)) = ''all'' \<or>
           typeStage (toLowerCase (orElse (ov_type ov) (filterType c))) v) \<and>
        (orElse (ov_patient ov) (filterPatient c) = ''All'' \<or>
           patientStage (orElse (ov_patient ov) (filterPatient c)) v) \<and>
        (orElse (ov_consequence ov) (filterConsequence c) = ''All'' \<or>
           consequenceStage (orElse (ov_consequence ov) (filterConsequence c)) v) \<and>
        (trim (toLowerCase (searchTerm c)) = [] \<or>
           matchesSearch c (trim (toLowerCase (searchTerm c))) v)"
  unfolding passesFilters_def applyFilters_filter by simp

lemma applyFilters_passes: "applyFilters c ov = filter (passesFilters c ov) (variants c)"
  unfolding passesFilters_iff by (rule applyFilters_filter)

lemma qualityStage_iff:
  "qualityStage q v \<longleftrightarrow> filter_v v = None \<or> filter_v v = Some [] \<or> filter_v v = Some q"
  by (cases "filter_v v") (auto simp: qualityStage_def truthy_def)

lemma toLowerCase_All: "toLowerCase ''All'' = ''all''"
  by (simp add: toLowerCase_def toLowerCaseChar_def upperCaseChars_def lowerCaseChars_def)

subsection \<open>Counts\<close>










lemma map_of_increment:
  "map_of (increment k cs) = (map_of cs)(k \<mapsto> orElse (map_of cs k) 0 + 1)"
  by (simp add: increment_def update_conv')

lemma count_increment:
  "orElse (map_of (increment k cs) p) 0 = orElse (map_of cs p) 0 + (if p = k then 1 else 0)"
  by (simp add: map_of_increment)

lemma count_foldl_increment:
  "orElse (map_of (foldl (\<lambda>cs p. increment p cs) cs ps) k) 0 =
     orElse (map_of cs k) 0 + length (filter (\<lambda>p. p = k) ps)"
  by (induction ps arbitrary: cs) (simp_all add: count_increment)

lemma length_filter_eq_distinct:
  "distinct ps \<Longrightarrow> length (filter (\<lambda>p. p = k) ps) = (if k \<in> set ps then 1 else 0)"
  by (induction ps) auto

lemma count_foldl_patients:
  assumes "\<And>v. distinct (g v)"
  shows "orElse (map_of (foldl (\<lambda>cs v. foldl (\<lambda>cs p. increment p cs) cs (g v)) cs vs) k) 0 =
     orElse (map_of cs k) 0 + length (filter (\<lambda>v. k \<in> set (g v)) vs)"
  by (induction vs arbitrary: cs)
    (simp_all add: count_foldl_increment length_filter_eq_distinct assms)

lemma map_of_update_other: "p \<noteq> k \<Longrightarrow> map_of (AList.update k n cs) p = map_of cs p"
  by (simp add: update_conv')


subsection \<open>The search stage\<close>

lemma rawHgvs_Nil_key: "rawHgvs v = [] \<Longrightarrow> getHgvsKey v = toString (position v)"
proof (cases "hgvs v")
  case None
  then show ?thesis by (simp add: getHgvsKey_def)
next
  case (Some hv)
  assume r: "rawHgvs v = []"
  show ?thesis
  proof (cases hv)
    case (HgvsString s)
    with Some r show ?thesis by (simp add: getHgvsKey_def rawHgvs_def split: if_splits)
  next
    case (HgvsArray hs)
    with Some r show ?thesis by (simp add: getHgvsKey_def rawHgvs_def)
  qed
qed

lemma matchesSearch_iff:
  "matchesSearch c search v \<longleftrightarrow>
     sublist search (toLowerCase (ref v @ toString (position v) @ alt v)) \<or>
     sublist search (toLowerCase (toString (position v))) \<or>
     (\<exists>p \<in> insert (patient v) (patient ` set (companions v)). sublist search (toLowerCase p)) \<or>
     (\<exists>h \<in> set (getHgvs c v). sublist search (toLowerCase h))"
  unfolding matchesSearch_def Let_def includes_str_def list_ex_iff toLowerCase_toString
  by (simp add: set_getInvolvedPatients)

lemma trim_toLowerCase_Nil: "trim (toLowerCase []) = []"
  by (simp add: trim_def toLowerCase_def)

lemma passesFilters_search:
  assumes "search = trim (toLowerCase (searchTerm c))" and "search \<noteq> []"
  shows "passesFilters c ov v \<longleftrightarrow>
           passesFilters (c\<lparr>searchTerm := []\<rparr>) ov v \<and> matchesSearch c search v"
  unfolding passesFilters_iff
  by (simp add: trim_toLowerCase_Nil assms(1) [symmetric] assms(2))

lemma applyFilters_search:
  assumes "search = trim (toLowerCase (searchTerm c))" and "search \<noteq> []"
  shows "applyFilters c ov =
           filter (matchesSearch c search) (applyFilters (c\<lparr>searchTerm := []\<rparr>) ov)"
  unfolding applyFilters_passes [of c ov] applyFilters_passes [of "c\<lparr>searchTerm := []\<rparr>" ov]
  by (simp add: passesFilters_search [OF assms] conj_commute cong: filter_cong)

lemma search_matches_cached:
  assumes "search = trim (toLowerCase (searchTerm c))" and "search \<noteq> []"
  assumes r: "rawHgvs v = []" and s: "hgvsStates c (toString (position v)) = Some st"
      and h: "h \<in> set (alternatives st)" and m: "sublist search (toLowerCase h)"
      and b: "v \<in> set (applyFilters (c\<lparr>searchTerm := []\<rparr>) ov)"
  shows "v \<in> set (applyFilters c ov)"
proof -
  from h have "alternatives st \<noteq> []" by auto
  with r s have "getHgvs c v = alternatives st"
    by (simp add: getHgvs_def rawHgvs_Nil_key)
  with h have "h \<in> set (getHgvs c v)" by simp
  with m have "\<exists>h \<in> set (getHgvs c v). sublist search (toLowerCase h)" by (rule bexI)
  then have "matchesSearch c search v"
    by (simp only: matchesSearch_iff simp_thms)
  with b show "v \<in> set (applyFilters c ov)"
    by (simp add: applyFilters_search [OF assms(1,2), of ov])
qed


subsection \<open>The annotation cache\<close>

lemma run_Nil [simp]: "run [] c = c"
  by (simp add: run_def)

lemma run_Cons [simp]: "run (a # acts) c = run acts (perform a c)"
  by (simp add: run_def)

lemma run_append: "run (xs @ ys) c = run ys (run xs c)"
  by (simp add: run_def)

lemma fetchHgvsAlternatives_noop:
  assumes "length (getHgvs c v) \<noteq> 1 \<or> CHR '':'' \<notin> set (getHgvs c v ! 0)"
  shows "fetchHgvsAlternatives c v jId lookup persist = []"
proof (cases "length (getHgvs c v) = 1")
  case True
  with assms have "CHR '':'' \<notin> set (getHgvs c v ! 0)" by simp
  with True show ?thesis
    unfolding fetchHgvsAlternatives_def Let_def by (simp add: split_colon_short)
next
  case False
  then have "length (getHgvs c v) > 1 \<or> length (getHgvs c v) = 0" by arith
  then show ?thesis
    unfolding fetchHgvsAlternatives_def Let_def by auto
qed

lemma fetchHgvsAlternatives_proceeds:
  assumes "length (getHgvs c v) = 1" and "CHR '':'' \<in> set (getHgvs c v ! 0)"
  shows "fetchHgvsAlternatives c v jId lookup persist =
           SetHgvsState (getHgvsKey v) loadingState #
           GetHgvsAlternatives (takeWhile (\<lambda>ch. ch \<noteq> CHR '':'') (getHgvs c v ! 0))
             (position v) (ref v) (alt v) #
           afterLookup (getHgvsKey v) (getHgvs c v ! 0) jId lookup persist"
  using assms unfolding fetchHgvsAlternatives_def Let_def
  by (simp add: split_colon_short split_colon_hd)

lemma getHgvsState_perform_same:
  "getHgvsState (perform (SetHgvsState (getHgvsKey v) st) c) v = Some st"
  by (simp add: getHgvsState_def)

lemma hgvsStates_run_catchBlock:
  "hgvsStates (run (catchBlock key) c) = (hgvsStates c)(key \<mapsto> errorState)"
  by (simp add: catchBlock_def)

lemma isLookup_afterLookup:
  "GetHgvsAlternatives t p r a \<notin> set (afterLookup key primary jId lookup persist)"
  by (cases lookup; cases persist) (simp_all add: afterLookup_def catchBlock_def)

lemma afterLookup_keys:
  "SetHgvsState k st \<in> set (afterLookup key primary jId lookup persist) \<Longrightarrow> k = key"
  by (cases lookup; cases persist) (auto simp: afterLookup_def catchBlock_def split: if_splits)

lemma fetchHgvsAlternatives_keys:
  assumes "SetHgvsState k st \<in> set (fetchHgvsAlternatives c v jId lookup persist)"
  shows "k = getHgvsKey v"
proof (cases "length (getHgvs c v) = 1 \<and> CHR '':'' \<in> set (getHgvs c v ! 0)")
  case True
  with assms show ?thesis
    by (auto simp: fetchHgvsAlternatives_proceeds dest: afterLookup_keys)
next
  case False
  then have "fetchHgvsAlternatives c v jId lookup persist = []"
    by (intro fetchHgvsAlternatives_noop) blast
  with assms show ?thesis by simp
qed

lemma ensureVariantVisible_unfold:
  fixes c v
  defines "s1 \<equiv> trim (toLowerCase (searchTerm c)) \<noteq> [] \<and>
                  \<not> matchesSearch c (trim (toLowerCase (searchTerm c))) v"
      and "s2 \<equiv> filterType c \<noteq> ''All'' \<and> toLowerCase (filterType c) \<noteq> toLowerCase (type_v v)"
      and "s3 \<equiv> filterPatient c \<noteq> ''All'' \<and> filterPatient c \<notin> set (getInvolvedPatients v)"
      and "s4 \<equiv> filterQuality c \<noteq> ''All'' \<and> truthy (filter_v v) \<and>
                  filter_v v \<noteq> Some (filterQuality c)"
      and "s5 \<equiv> filterConsequence c \<noteq> ''All'' \<and> consequence v \<noteq> Some (filterConsequence c)"
  shows "ensureVariantVisible c v =
     (s1 \<or> s2 \<or> s3 \<or> s4 \<or> s5,
      c\<lparr>searchTerm := if s1 then [] else searchTerm c,
        filterType := if s2 then ''All'' else filterType c,
        filterPatient := if s3 then ''All'' else filterPatient c,
        filterQuality := if s4 then ''All'' else filterQuality c,
        filterConsequence := if s5 then ''All'' else filterConsequence c\<rparr>)"
proof -
  have 1: "checkSearch v (False, c) = (s1, c\<lparr>searchTerm := if s1 then [] else searchTerm c\<rparr>)"
    unfolding checkSearch_def s1_def by (simp add: Let_def)
  have 2: "checkType v (n, c\<lparr>searchTerm := x\<rparr>) =
      (n \<or> s2, c\<lparr>searchTerm := x, filterType := if s2 then ''All'' else filterType c\<rparr>)" for n x
    unfolding checkType_def s2_def by simp
  have 3: "checkPatient v (n, c\<lparr>searchTerm := x, filterType := y\<rparr>) =
      (n \<or> s3, c\<lparr>searchTerm := x, filterType := y,
         filterPatient := if s3 then ''All'' else filterPatient c\<rparr>)" for n x y
    unfolding checkPatient_def s3_def by simp
  have 4: "checkQuality v (n, c\<lparr>searchTerm := x, filterType := y, filterPatient := z\<rparr>) =
      (n \<or> s4, c\<lparr>searchTerm := x, filterType := y, filterPatient := z,
         filterQuality := if s4 then ''All'' else filterQuality c\<rparr>)" for n x y z
    unfolding checkQuality_def s4_def by auto
  have 5: "checkConsequence v
        (n, c\<lparr>searchTerm := x, filterType := y, filterPatient := z, filterQuality := w\<rparr>) =
      (n \<or> s5, c\<lparr>searchTerm := x, filterType := y, filterPatient := z, filterQuality := w,
         filterConsequence := if s5 then ''All'' else filterConsequence c\<rparr>)" for n x y z w
    unfolding checkConsequence_def s5_def by simp
  show ?thesis
    unfolding ensureVariantVisible_def 1 2 3 4 5 by (simp add: disj_assoc)
qed

lemma hgvsStates_ensureVariantVisible:
  "hgvsStates (snd (ensureVariantVisible c v)) = hgvsStates c"
  unfolding ensureVariantVisible_unfold by simp

lemma hgvsStates_constructorEffect:
  "hgvsStates (constructorEffect c) = seedStates (hgvsAlternatives c)"
  by (simp add: constructorEffect_def Let_def)

lemma hgvsStates_step:
  "\<not> isInputsChanged op \<Longrightarrow> \<not> writesKey k op \<Longrightarrow> hgvsStates (step op c) k = hgvsStates c k"
proof (cases op)
  case (Perform a)
  assume "\<not> writesKey k op"
  with Perform show ?thesis by (cases a) simp_all
qed (simp_all add: updateSearchTerm_def setQualityFilter_def setFilter_def
      setPatientFilter_def setConsequenceFilter_def hgvsStates_ensureVariantVisible)

lemma dom_step:
  "\<not> isInputsChanged op \<Longrightarrow> dom (hgvsStates c) \<subseteq> dom (hgvsStates (step op c))"
proof (cases op)
  case (Perform a)
  then show ?thesis by (cases a) auto
qed (simp_all add: updateSearchTerm_def setQualityFilter_def setFilter_def
      setPatientFilter_def setConsequenceFilter_def hgvsStates_ensureVariantVisible)

lemma hgvsStates_session:
  "\<forall>op \<in> set ops. \<not> isInputsChanged op \<Longrightarrow> \<forall>op \<in> set ops. \<not> writesKey k op \<Longrightarrow>
     hgvsStates (session ops c) k = hgvsStates c k"
  unfolding session_def
  by (induction ops arbitrary: c) (simp_all add: hgvsStates_step)

lemma dom_session:
  "\<forall>op \<in> set ops. \<not> isInputsChanged op \<Longrightarrow>
     dom (hgvsStates c) \<subseteq> dom (hgvsStates (session ops c))"
  unfolding session_def
proof (induction ops arbitrary: c)
  case Nil
  show ?case by simp
next
  case (Cons op ops)
  then have "dom (hgvsStates c) \<subseteq> dom (hgvsStates (step op c))"
    by (simp add: dom_step)
  also from Cons have "\<dots> \<subseteq> dom (hgvsStates (foldl (\<lambda>c op. step op c) (step op c) ops))"
    by simp
  finally show ?case by simp
qed


lemma getHgvsKey_raw:
  "getHgvsKey v =
     (if rawHgvs v = [] \<or> (\<exists>s. hgvs v = Some (HgvsString s) \<and> trim s = [])
      then toString (position v) else hd (rawHgvs v))"
proof (cases "hgvs v")
  case None
  then show ?thesis by (simp add: getHgvsKey_def rawHgvs_def)
next
  case (Some hv)
  show ?thesis
  proof (cases hv)
    case (HgvsString s)
    with Some show ?thesis by (simp add: getHgvsKey_def rawHgvs_def)
  next
    case (HgvsArray hs)
    with Some show ?thesis by (cases hs) (simp_all add: getHgvsKey_def rawHgvs_def)
  qed
qed

lemma getHgvs_uncached:
  "\<forall>st. hgvsStates c (getHgvsKey v) = Some st \<longrightarrow> alternatives st = [] \<Longrightarrow>
     getHgvs c v = rawHgvs v"
  by (cases "hgvsStates c (getHgvsKey v)") (simp_all add: getHgvs_def)


subsection \<open>Visibility reconciliation\<close>

lemma excludesSearch_iff:
  "excludesSearch c v \<longleftrightarrow>
     trim (toLowerCase (searchTerm c)) \<noteq> [] \<and>
     \<not> matchesSearch c (trim (toLowerCase (searchTerm c))) v"
  by (simp add: excludesSearch_def)

lemma excludesType_iff:
  "filterType c = ''All'' \<or> toLowerCase (filterType c) \<noteq> ''all'' \<Longrightarrow>
   excludesType c v \<longleftrightarrow>
     filterType c \<noteq> ''All'' \<and> toLowerCase (filterType c) \<noteq> toLowerCase (type_v v)"
  by (auto simp: excludesType_def typeStage_def toLowerCase_All)

lemma excludesPatient_iff:
  "excludesPatient c v \<longleftrightarrow>
     filterPatient c \<noteq> ''All'' \<and> filterPatient c \<notin> set (getInvolvedPatients v)"
  by (simp add: excludesPatient_def patientStage_iff)

lemma excludesQuality_iff:
  "excludesQuality c v \<longleftrightarrow>
     filterQuality c \<noteq> ''All'' \<and> truthy (filter_v v) \<and> filter_v v \<noteq> Some (filterQuality c)"
  by (simp add: excludesQuality_def qualityStage_def)

lemma excludesConsequence_iff:
  "excludesConsequence c v \<longleftrightarrow>
     filterConsequence c \<noteq> ''All'' \<and> consequence v \<noteq> Some (filterConsequence c)"
  by (simp add: excludesConsequence_def consequenceStage_def)

lemma passesFilters_excludes:
  "passesFilters c no_overrides v \<longleftrightarrow>
     \<not> excludesSearch c v \<and> \<not> excludesType c v \<and> \<not> excludesPatient c v \<and>
     \<not> excludesQuality c v \<and> \<not> excludesConsequence c v"
  unfolding passesFilters_iff excludesSearch_def excludesType_def excludesPatient_def
    excludesQuality_def excludesConsequence_def
  by (simp add: no_overrides_def; blast)

lemma getHgvs_cong: "hgvsStates c' = hgvsStates c \<Longrightarrow> getHgvs c' v = getHgvs c v"
  by (simp add: getHgvs_def)

lemma matchesSearch_cong:
  "hgvsStates c' = hgvsStates c \<Longrightarrow> matchesSearch c' search v = matchesSearch c search v"
  by (simp add: matchesSearch_def getHgvs_def)

lemma ev_searchTerm:
  "searchTerm (snd (ensureVariantVisible c v)) = (if excludesSearch c v then [] else searchTerm c)"
  unfolding ensureVariantVisible_unfold excludesSearch_def by simp

lemma ev_filterType:
  "filterType (snd (ensureVariantVisible c v)) =
     (if filterType c \<noteq> ''All'' \<and> toLowerCase (filterType c) \<noteq> toLowerCase (type_v v)
      then ''All'' else filterType c)"
  unfolding ensureVariantVisible_unfold by simp

lemma ev_filterPatient:
  "filterPatient (snd (ensureVariantVisible c v)) =
     (if excludesPatient c v then ''All'' else filterPatient c)"
  unfolding ensureVariantVisible_unfold excludesPatient_iff by simp

lemma ev_filterQuality:
  "filterQuality (snd (ensureVariantVisible c v)) =
     (if excludesQuality c v then ''All'' else filterQuality c)"
  unfolding ensureVariantVisible_unfold excludesQuality_iff by simp

lemma ev_filterConsequence:
  "filterConsequence (snd (ensureVariantVisible c v)) =
     (if excludesConsequence c v then ''All'' else filterConsequence c)"
  unfolding ensureVariantVisible_unfold excludesConsequence_iff by simp

lemma ensureVariantVisible_passes:
  "passesFilters (snd (ensureVariantVisible c v)) no_overrides v"
proof -
  define c' where "c' = snd (ensureVariantVisible c v)"
  have h: "hgvsStates c' = hgvsStates c"
    unfolding c'_def by (rule hgvsStates_ensureVariantVisible)
  have m: "matchesSearch c' search v = matchesSearch c search v" for search
    using h by (rule matchesSearch_cong)
  have 1: "\<not> excludesSearch c' v"
    unfolding excludesSearch_def [of c'] m unfolding c'_def ev_searchTerm
    by (simp add: trim_toLowerCase_Nil excludesSearch_def)
  have 2: "\<not> excludesType c' v"
    unfolding excludesType_def typeStage_def c'_def ev_filterType
    by (simp add: toLowerCase_All)
  have 3: "\<not> excludesPatient c' v"
    unfolding excludesPatient_iff [of c'] unfolding c'_def ev_filterPatient
    by (simp add: excludesPatient_iff)
  have 4: "\<not> excludesQuality c' v"
    unfolding excludesQuality_iff [of c'] unfolding c'_def ev_filterQuality
    by (simp add: excludesQuality_iff)
  have 5: "\<not> excludesConsequence c' v"
    unfolding excludesConsequence_iff [of c'] unfolding c'_def ev_filterConsequence
    by (simp add: excludesConsequence_iff)
  from 1 2 3 4 5 show ?thesis
    unfolding c'_def [symmetric] passesFilters_excludes by (intro conjI)
qed

text \<open>
  When the type selection is \<open>All\<close> itself, or is not \<open>all\<close> in another letter case,
  \<open>ensureVariantVisible\<close> resets exactly the dimensions that exclude the record, reports
  whether it reset one, and leaves a state in which the record passes the filters.
\<close>

lemma ensureVariantVisible_minimal:
  assumes "filterType c = ''All'' \<or> toLowerCase (filterType c) \<noteq> ''all''"
  shows "ensureVariantVisible c v =
     (excludesSearch c v \<or> excludesType c v \<or> excludesPatient c v \<or>
      excludesQuality c v \<or> excludesConsequence c v,
      c\<lparr>searchTerm := if excludesSearch c v then [] else searchTerm c,
        filterType := if excludesType c v then ''All'' else filterType c,
        filterPatient := if excludesPatient c v then ''All'' else filterPatient c,
        filterQuality := if excludesQuality c v then ''All'' else filterQuality c,
        filterConsequence := if excludesConsequence c v then ''All'' else filterConsequence c\<rparr>)"
  unfolding ensureVariantVisible_unfold excludesType_iff [OF assms] excludesSearch_iff
    excludesPatient_iff excludesQuality_iff excludesConsequence_iff
  by (rule refl)

lemma ensureVariantVisible_unchanged:
  assumes "filterType c = ''All'' \<or> toLowerCase (filterType c) \<noteq> ''all''"
    and "passesFilters c no_overrides v"
  shows "ensureVariantVisible c v = (False, c)"
  using assms(2) unfolding ensureVariantVisible_minimal [OF assms(1)] passesFilters_excludes
  by simp

section \<open>The claims\<close>

text \<open>
  C9. With all four effective facet selections equal to \<open>All\<close> and a search string that
  is empty or consists of white space only, \<open>applyFilters\<close> returns the input list as it
  is; and for every filter state and every override the output is a subsequence of the
  input, in the input's order.
\<close>

theorem applyFilters_neutral_and_subseq:
  "(orElse (ov_type ov) (filterType c) = ''All'' \<and>
    orElse (ov_patient ov) (filterPatient c) = ''All'' \<and>
    orElse (ov_quality ov) (filterQuality c) = ''All'' \<and>
    orElse (ov_consequence ov) (filterConsequence c) = ''All'' \<and>
    (\<forall>ch \<in> set (searchTerm c). isWhiteSpace ch)
      \<longrightarrow> applyFilters c ov = variants c) \<and>
   subseq (applyFilters c ov) (variants c)"
proof
  show "orElse (ov_type ov) (filterType c) = ''All'' \<and>
    orElse (ov_patient ov) (filterPatient c) = ''All'' \<and>
    orElse (ov_quality ov) (filterQuality c) = ''All'' \<and>
    orElse (ov_consequence ov) (filterConsequence c) = ''All'' \<and>
    (\<forall>ch \<in> set (searchTerm c). isWhiteSpace ch)
      \<longrightarrow> applyFilters c ov = variants c"
  proof
    assume a: "orElse (ov_type ov) (filterType c) = ''All'' \<and>
      orElse (ov_patient ov) (filterPatient c) = ''All'' \<and>
      orElse (ov_quality ov) (filterQuality c) = ''All'' \<and>
      orElse (ov_consequence ov) (filterConsequence c) = ''All'' \<and>
      (\<forall>ch \<in> set (searchTerm c). isWhiteSpace ch)"
    then have s: "trim (toLowerCase (searchTerm c)) = []"
      by (simp add: trim_all_space)
    have t: "toLowerCase ''All'' = ''all''"
      by (simp add: toLowerCase_def toLowerCaseChar_def upperCaseChars_def lowerCaseChars_def)
    from a s t show "applyFilters c ov = variants c"
      by (simp add: applyFilters_filter)
  qed
next
  show "subseq (applyFilters c ov) (variants c)"
    by (simp add: applyFilters_filter)
qed

theorem applyFilters_neutral_and_subseq_witness:
  "applyFilters (exComponent\<lparr>searchTerm := [CHR '' '', CHR 0xA0]\<rparr>) no_overrides = [exV100, exV200, exV300] \<and>
   subseq (applyFilters (exComponent\<lparr>filterQuality := ''PASS''\<rparr>) no_overrides) [exV100, exV200, exV300] \<and>
   applyFilters (exComponent\<lparr>filterQuality := ''PASS''\<rparr>) no_overrides = [exV100, exV300]"
proof -
  have 1: "applyFilters (exComponent\<lparr>searchTerm := [CHR '' '', CHR 0xA0]\<rparr>) no_overrides = [exV100, exV200, exV300]"
    using applyFilters_neutral_and_subseq [of no_overrides "exComponent\<lparr>searchTerm := [CHR '' '', CHR 0xA0]\<rparr>"]
    by (simp add: exComponent_def no_overrides_def orElse_def isWhiteSpace_def)
  have 2: "subseq (applyFilters (exComponent\<lparr>filterQuality := ''PASS''\<rparr>) no_overrides) [exV100, exV200, exV300]"
    using applyFilters_neutral_and_subseq [of no_overrides "exComponent\<lparr>filterQuality := ''PASS''\<rparr>"]
    by (simp add: exComponent_def)
  have 3: "applyFilters (exComponent\<lparr>filterQuality := ''PASS''\<rparr>) no_overrides = [exV100, exV300]"
    by code_simp
  from 1 2 3 show ?thesis by simp
qed

text \<open>
  C6 (as amended). Under a concrete quality selection \<open>q\<close> (not \<open>All\<close>), the quality stage
  keeps exactly the records whose \<open>filter\<close> field is absent, is the empty string, or
  equals \<open>q\<close>: the output of \<open>applyFilters\<close> is its output with the quality dimension
  overridden to \<open>All\<close>, restricted to those records. The source tests the field with
  \<^verbatim>\<open>!v.filter\<close>, so an empty flag counts as no flag.
\<close>

theorem quality_stage_keeps:
  assumes "orElse (ov_quality ov) (filterQuality c) = q" and "q \<noteq> ''All''"
  shows "applyFilters c ov =
           filter (\<lambda>v. filter_v v = None \<or> filter_v v = Some [] \<or> filter_v v = Some q)
             (applyFilters c (ov\<lparr>ov_quality := Some ''All''\<rparr>))"
proof -
  have "passesFilters c ov v \<longleftrightarrow>
          (filter_v v = None \<or> filter_v v = Some [] \<or> filter_v v = Some q) \<and>
          passesFilters c (ov\<lparr>ov_quality := Some ''All''\<rparr>) v" for v
    unfolding passesFilters_iff using assms by (simp add: qualityStage_iff)
  then show ?thesis
    unfolding applyFilters_passes [of c ov] applyFilters_passes [of c "ov\<lparr>ov_quality := Some ''All''\<rparr>"]
    by (simp add: conj_commute cong: filter_cong)
qed

theorem quality_stage_keeps_witness:
  "applyFilters (exComponent\<lparr>filterQuality := ''PASS''\<rparr>) no_overrides = [exV100, exV300] \<and>
   filter_v exV100 = Some ''PASS'' \<and> filter_v exV200 = Some ''LOW'' \<and> filter_v exV300 = Some []"
proof -
  have "applyFilters (exComponent\<lparr>filterQuality := ''PASS''\<rparr>) no_overrides =
          filter (\<lambda>v. filter_v v = None \<or> filter_v v = Some [] \<or> filter_v v = Some ''PASS'')
             (applyFilters (exComponent\<lparr>filterQuality := ''PASS''\<rparr>) (no_overrides\<lparr>ov_quality := Some ''All''\<rparr>))"
    by (rule quality_stage_keeps) (simp_all add: orElse_def no_overrides_def exComponent_def)
  moreover have "applyFilters (exComponent\<lparr>filterQuality := ''PASS''\<rparr>) (no_overrides\<lparr>ov_quality := Some ''All''\<rparr>)
     = [exV100, exV200, exV300]"
    by code_simp
  moreover have "filter_v exV100 = Some ''PASS'' \<and> filter_v exV200 = Some ''LOW'' \<and> filter_v exV300 = Some []"
    by (simp add: exV100_def exV200_def exV300_def)
  ultimately show ?thesis by simp
qed

theorem quality_stage_counterexample:
  "filterQuality (exComponent\<lparr>filterQuality := ''PASS''\<rparr>) = ''PASS'' \<and>
   filter_v exV300 = Some [] \<and>
   filter_v exV300 \<noteq> Some ''PASS'' \<and>
   exV300 \<in> set (applyFilters (exComponent\<lparr>filterQuality := ''PASS''\<rparr>) no_overrides)"
  by code_simp





text \<open>
  C10. \<open>getInvolvedPatients\<close> returns the set of the record's own patient and its
  companions' patients as a strictly increasing list in the lexicographic order of
  strings. Hence, in \<open>patientCounts\<close>, the count of a patient is the number of records of
  the base list that involve the patient: a record adds at most one to it, however many
  of its companions carry that patient.
\<close>

theorem getInvolvedPatients_sorted_set:
  "getInvolvedPatients v =
     sorted_list_of_set (insert (patient v) (patient ` set (companions v))) \<and>
   sorted_wrt (<) (getInvolvedPatients v) \<and>
   (p \<noteq> ''All'' \<longrightarrow>
      orElse (map_of (patientCounts c) p) 0 =
        length (filter (\<lambda>v. p \<in> insert (patient v) (patient ` set (companions v)))
          (applyFilters c (no_overrides\<lparr>ov_patient := Some ''All''\<rparr>))))"
proof (intro conjI impI)
  show "getInvolvedPatients v =
     sorted_list_of_set (insert (patient v) (patient ` set (companions v)))"
    by (metis distinct_getInvolvedPatients set_getInvolvedPatients
        sorted_getInvolvedPatients sorted_list_of_set.idem_if_sorted_distinct)
  show "sorted_wrt (<) (getInvolvedPatients v)"
    by (simp add: strict_sorted_iff distinct_getInvolvedPatients sorted_getInvolvedPatients)
  assume "p \<noteq> ''All''"
  then show "orElse (map_of (patientCounts c) p) 0 =
        length (filter (\<lambda>v. p \<in> insert (patient v) (patient ` set (companions v)))
          (applyFilters c (no_overrides\<lparr>ov_patient := Some ''All''\<rparr>)))"
    unfolding patientCounts_def Let_def
    by (simp add: map_of_update_other count_foldl_patients distinct_getInvolvedPatients
        set_getInvolvedPatients)
qed

theorem getInvolvedPatients_sorted_set_witness:
  "getInvolvedPatients exV200 = [''P1'', ''P2'', ''P3''] \<and>
   map patient (companions exV200) = [''P3'', ''P1'', ''P3''] \<and>
   orElse (map_of (patientCounts exComponent) ''P3'') 0 = 1"
proof -
  have 1: "getInvolvedPatients exV200 = [''P1'', ''P2'', ''P3'']" by code_simp
  have 2: "map patient (companions exV200) = [''P3'', ''P1'', ''P3'']" by code_simp
  have 3: "applyFilters exComponent (no_overrides\<lparr>ov_patient := Some ''All''\<rparr>) = [exV100, exV200, exV300]"
    by code_simp
  have 4: "patient exV100 = ''P1'' \<and> companions exV100 = [] \<and> patient exV200 = ''P2'' \<and>
      patient exV300 = ''P2'' \<and> companions exV300 = []"
    by code_simp
  have 5: "patient ` set (companions exV200) = set [''P3'', ''P1'', ''P3'']"
    by (simp only: set_map [symmetric] 2)
  have "''P3'' \<noteq> ''All''" by simp
  with getInvolvedPatients_sorted_set [of exV200 "''P3''" exComponent]
  have "orElse (map_of (patientCounts exComponent) ''P3'') 0 =
        length (filter (\<lambda>v. ''P3'' \<in> insert (patient v) (patient ` set (companions v)))
          (applyFilters exComponent (no_overrides\<lparr>ov_patient := Some ''All''\<rparr>)))"
    by blast
  also have "\<dots> = 1" unfolding 3 using 4 5 by simp
  finally show ?thesis using 1 2 by simp
qed

text \<open>
  C7. With a non-empty trimmed and lower-cased query \<open>search\<close>, the search stage keeps
  exactly the records for which \<open>search\<close> occurs in the lower-cased concatenation of ref,
  position and alt, in the decimal position, in the lower-cased identifier of an involved
  patient, or in a lower-cased resolved HGVS string. In particular a record whose raw
  \<open>hgvs\<close> field is empty is kept when a cached alternative under its key contains the
  query.
\<close>

theorem search_stage_keeps:
  assumes "search = trim (toLowerCase (searchTerm c))" and "search \<noteq> []"
  shows "applyFilters c ov =
           filter (\<lambda>v.
               sublist search (toLowerCase (ref v @ toString (position v) @ alt v)) \<or>
               sublist search (toLowerCase (toString (position v))) \<or>
               (\<exists>p \<in> insert (patient v) (patient ` set (companions v)).
                   sublist search (toLowerCase p)) \<or>
               (\<exists>h \<in> set (getHgvs c v). sublist search (toLowerCase h)))
             (applyFilters (c\<lparr>searchTerm := []\<rparr>) ov) \<and>
         (rawHgvs v = [] \<and> hgvsStates c (toString (position v)) = Some st \<and>
          h \<in> set (alternatives st) \<and> sublist search (toLowerCase h) \<and>
          v \<in> set (applyFilters (c\<lparr>searchTerm := []\<rparr>) ov)
            \<longrightarrow> v \<in> set (applyFilters c ov))"
proof (rule conjI)
  show "applyFilters c ov =
           filter (\<lambda>v.
               sublist search (toLowerCase (ref v @ toString (position v) @ alt v)) \<or>
               sublist search (toLowerCase (toString (position v))) \<or>
               (\<exists>p \<in> insert (patient v) (patient ` set (companions v)).
                   sublist search (toLowerCase p)) \<or>
               (\<exists>h \<in> set (getHgvs c v). sublist search (toLowerCase h)))
             (applyFilters (c\<lparr>searchTerm := []\<rparr>) ov)"
    using applyFilters_search [OF assms, of ov] unfolding matchesSearch_iff [abs_def] .
  show "rawHgvs v = [] \<and> hgvsStates c (toString (position v)) = Some st \<and>
          h \<in> set (alternatives st) \<and> sublist search (toLowerCase h) \<and>
          v \<in> set (applyFilters (c\<lparr>searchTerm := []\<rparr>) ov)
            \<longrightarrow> v \<in> set (applyFilters c ov)"
    using search_matches_cached [OF assms] by (intro impI, elim conjE)
qed

theorem search_stage_keeps_witness:
  "trim (toLowerCase (searchTerm exCached)) = ''nm_001'' \<and>
   hgvs exV300 = None \<and>
   applyFilters (exCached\<lparr>searchTerm := []\<rparr>) no_overrides = [exV100, exV200, exV300] \<and>
   applyFilters exCached no_overrides = [exV100, exV300] \<and>
   exV300 \<in> set (applyFilters exCached no_overrides) \<and>
   applyFilters exLatin no_overrides = [exV600]"
proof -
  have l: "applyFilters exLatin no_overrides = [exV600]"
  proof -
    have ls: "trim (toLowerCase (searchTerm exLatin)) = ''mu'' @ [CHR 0xF1] @ ''oz''"
      by code_simp
    have ln: "''mu'' @ [CHR 0xF1] @ ''oz'' \<noteq> []" by simp
    have la: "applyFilters (exLatin\<lparr>searchTerm := []\<rparr>) no_overrides = [exV100, exV600]"
      by code_simp
    have lf: "filter (\<lambda>v.
               sublist (''mu'' @ [CHR 0xF1] @ ''oz'')
                 (toLowerCase (ref v @ toString (position v) @ alt v)) \<or>
               sublist (''mu'' @ [CHR 0xF1] @ ''oz'') (toLowerCase (toString (position v))) \<or>
               (\<exists>p \<in> insert (patient v) (patient ` set (companions v)).
                   sublist (''mu'' @ [CHR 0xF1] @ ''oz'') (toLowerCase p)) \<or>
               (\<exists>h \<in> set (getHgvs exLatin v).
                   sublist (''mu'' @ [CHR 0xF1] @ ''oz'') (toLowerCase h)))
             [exV100, exV600] = [exV600]"
      by code_simp
    show ?thesis
      by (rule search_stage_keeps [OF ls [symmetric] ln, of no_overrides exV600
            loadingState "[]", unfolded la lf, THEN conjunct1])
  qed
  have s: "trim (toLowerCase (searchTerm exCached)) = ''nm_001''" by code_simp
  have n: "''nm_001'' \<noteq> []" by simp
  have a: "applyFilters (exCached\<lparr>searchTerm := []\<rparr>) no_overrides = [exV100, exV200, exV300]"
    by code_simp
  have r: "rawHgvs exV300 = [] \<and> hgvs exV300 = None" by code_simp
  have k: "hgvsStates exCached (toString (position exV300)) =
             Some (successState [''NM_001:c.300G>C'', ''ENST01:c.300G>C''])"
    by code_simp
  have h: "''NM_001:c.300G>C'' \<in> set (alternatives (successState [''NM_001:c.300G>C'', ''ENST01:c.300G>C'']))"
    by code_simp
  have m: "sublist ''nm_001'' (toLowerCase ''NM_001:c.300G>C'')" by code_simp
  have f: "filter (\<lambda>v.
               sublist ''nm_001'' (toLowerCase (ref v @ toString (position v) @ alt v)) \<or>
               sublist ''nm_001'' (toLowerCase (toString (position v))) \<or>
               (\<exists>p \<in> insert (patient v) (patient ` set (companions v)).
                   sublist ''nm_001'' (toLowerCase p)) \<or>
               (\<exists>h \<in> set (getHgvs exCached v). sublist ''nm_001'' (toLowerCase h)))
             [exV100, exV200, exV300] = [exV100, exV300]"
    by code_simp
  note t = search_stage_keeps [OF s [symmetric] n, of no_overrides exV300
      "successState [''NM_001:c.300G>C'', ''ENST01:c.300G>C'']" "''NM_001:c.300G>C''"]
  have 1: "applyFilters exCached no_overrides = [exV100, exV300]"
    by (rule t [unfolded a f, THEN conjunct1])
  have 2: "exV300 \<in> set (applyFilters exCached no_overrides)"
  proof (rule t [THEN conjunct2, THEN mp], intro conjI)
    show "rawHgvs exV300 = []" using r by (rule conjunct1)
    show "hgvsStates exCached (toString (position exV300)) =
             Some (successState [''NM_001:c.300G>C'', ''ENST01:c.300G>C''])"
      by (rule k)
    show "''NM_001:c.300G>C'' \<in> set (alternatives (successState [''NM_001:c.300G>C'', ''ENST01:c.300G>C'']))"
      by (rule h)
    show "sublist ''nm_001'' (toLowerCase ''NM_001:c.300G>C'')" by (rule m)
    show "exV300 \<in> set (applyFilters (exCached\<lparr>searchTerm := []\<rparr>) no_overrides)"
      unfolding a by simp
  qed
  from s r [THEN conjunct2] a 1 2 l show ?thesis by (intro conjI)
qed

text \<open>
  C8. \<open>fetchHgvsAlternatives\<close> performs no action at all (no state write, no lookup) when
  the resolved HGVS sequence has more than one entry, when it is empty, or when its only
  entry has no colon. Otherwise its first action sets the entry of the record's key to
  the pending state, its second action is the one lookup call, for the text before the
  first colon, and both when the lookup is issued and when the call suspends a read of
  the record's cache state gives the pending state.
\<close>

theorem fetch_noop_or_pending:
  "(length (getHgvs c v) > 1 \<or> getHgvs c v = [] \<or>
      (getHgvs c v = [primary] \<and> CHR '':'' \<notin> set primary)
    \<longrightarrow> fetchHgvsAlternatives c v jId lookup persist = [] \<and>
        run (fetchHgvsAlternatives c v jId lookup persist) c' = c') \<and>
   (getHgvs c v = [primary] \<and> CHR '':'' \<in> set primary
    \<longrightarrow> fetchHgvsAlternatives c v jId lookup persist =
          SetHgvsState (getHgvsKey v) \<lparr>loading = True, error = False, alternatives = []\<rparr> #
          GetHgvsAlternatives (takeWhile (\<lambda>ch. ch \<noteq> CHR '':'') primary)
            (position v) (ref v) (alt v) #
          afterLookup (getHgvsKey v) primary jId lookup persist \<and>
        GetHgvsAlternatives t p r a \<notin> set (afterLookup (getHgvsKey v) primary jId lookup persist) \<and>
        getHgvsState (run (take 1 (fetchHgvsAlternatives c v jId lookup persist)) c') v =
          Some \<lparr>loading = True, error = False, alternatives = []\<rparr> \<and>
        getHgvsState (run (take 2 (fetchHgvsAlternatives c v jId lookup persist)) c') v =
          Some \<lparr>loading = True, error = False, alternatives = []\<rparr>)"
proof (intro conjI impI)
  assume a: "length (getHgvs c v) > 1 \<or> getHgvs c v = [] \<or>
      (getHgvs c v = [primary] \<and> CHR '':'' \<notin> set primary)"
  then have "length (getHgvs c v) \<noteq> 1 \<or> CHR '':'' \<notin> set (getHgvs c v ! 0)" by auto
  then show n: "fetchHgvsAlternatives c v jId lookup persist = []"
    by (rule fetchHgvsAlternatives_noop)
  show "run (fetchHgvsAlternatives c v jId lookup persist) c' = c'"
    unfolding n by simp
next
  assume a: "getHgvs c v = [primary] \<and> CHR '':'' \<in> set primary"
  then have "length (getHgvs c v) = 1" and "CHR '':'' \<in> set (getHgvs c v ! 0)"
    by simp_all
  from fetchHgvsAlternatives_proceeds [OF this, of jId lookup persist] a
  show f: "fetchHgvsAlternatives c v jId lookup persist =
          SetHgvsState (getHgvsKey v) \<lparr>loading = True, error = False, alternatives = []\<rparr> #
          GetHgvsAlternatives (takeWhile (\<lambda>ch. ch \<noteq> CHR '':'') primary)
            (position v) (ref v) (alt v) #
          afterLookup (getHgvsKey v) primary jId lookup persist"
    by (simp add: loadingState_def)
  show "GetHgvsAlternatives t p r a \<notin> set (afterLookup (getHgvsKey v) primary jId lookup persist)"
    by (rule isLookup_afterLookup)
  show "getHgvsState (run (take 1 (fetchHgvsAlternatives c v jId lookup persist)) c') v =
          Some \<lparr>loading = True, error = False, alternatives = []\<rparr>"
    unfolding f by (simp add: getHgvsState_def)
  show "getHgvsState (run (take 2 (fetchHgvsAlternatives c v jId lookup persist)) c') v =
          Some \<lparr>loading = True, error = False, alternatives = []\<rparr>"
    unfolding f by (simp add: getHgvsState_def numeral_2_eq_2)
qed

theorem fetch_noop_or_pending_witness:
  "getHgvs exComponent exV100 = [''NM_001:c.100A>G''] \<and>
   take 2 (fetchHgvsAlternatives exComponent exV100 (Some ''job1'') (Fulfilled exAlts) (Fulfilled ())) =
     [SetHgvsState ''NM_001:c.100A>G'' \<lparr>loading = True, error = False, alternatives = []\<rparr>,
      GetHgvsAlternatives ''NM_001'' 100 ''A'' ''G''] \<and>
   getHgvsState (run (take 2 (fetchHgvsAlternatives exComponent exV100 (Some ''job1'')
       (Fulfilled exAlts) (Fulfilled ()))) exComponent) exV100 =
     Some \<lparr>loading = True, error = False, alternatives = []\<rparr> \<and>
   getHgvs exComponent exV300 = [] \<and>
   fetchHgvsAlternatives exComponent exV300 (Some ''job1'') (Fulfilled exAlts) (Fulfilled ()) = [] \<and>
   length (getHgvs exCached exV300) = 2 \<and>
   fetchHgvsAlternatives exCached exV300 (Some ''job1'') (Fulfilled exAlts) (Fulfilled ()) = []"
proof -
  have g1: "getHgvs exComponent exV100 = [''NM_001:c.100A>G'']" by code_simp
  have k1: "getHgvsKey exV100 = ''NM_001:c.100A>G''" by code_simp
  have c1: "CHR '':'' \<in> set ''NM_001:c.100A>G''" by simp
  have t1: "takeWhile (\<lambda>ch. ch \<noteq> CHR '':'') ''NM_001:c.100A>G'' = ''NM_001''" by simp
  have f1: "position exV100 = 100 \<and> ref exV100 = ''A'' \<and> alt exV100 = ''G''"
    by (simp add: exV100_def)
  have g3: "getHgvs exComponent exV300 = []" by code_simp
  have g4: "length (getHgvs exCached exV300) = 2" by code_simp
  note w1 = fetch_noop_or_pending [of exComponent exV100 "''NM_001:c.100A>G''" "Some ''job1''"
      "Fulfilled exAlts" "Fulfilled ()" exComponent, THEN conjunct2, THEN mp, OF conjI [OF g1 c1]]
  note w3 = fetch_noop_or_pending [of exComponent exV300 "[]" "Some ''job1''"
      "Fulfilled exAlts" "Fulfilled ()" exComponent, THEN conjunct1, THEN mp, THEN conjunct1]
  note w4 = fetch_noop_or_pending [of exCached exV300 "[]" "Some ''job1''"
      "Fulfilled exAlts" "Fulfilled ()" exComponent, THEN conjunct1, THEN mp, THEN conjunct1]
  have a: "take 2 (fetchHgvsAlternatives exComponent exV100 (Some ''job1'') (Fulfilled exAlts) (Fulfilled ())) =
     [SetHgvsState ''NM_001:c.100A>G'' \<lparr>loading = True, error = False, alternatives = []\<rparr>,
      GetHgvsAlternatives ''NM_001'' 100 ''A'' ''G'']"
    using w1 [THEN conjunct1] by (simp add: k1 t1 f1 numeral_2_eq_2)
  have b: "getHgvsState (run (take 2 (fetchHgvsAlternatives exComponent exV100 (Some ''job1'')
       (Fulfilled exAlts) (Fulfilled ()))) exComponent) exV100 =
     Some \<lparr>loading = True, error = False, alternatives = []\<rparr>"
    using w1 by blast
  have c: "fetchHgvsAlternatives exComponent exV300 (Some ''job1'') (Fulfilled exAlts) (Fulfilled ()) = []"
    using g3 by (intro w3) simp
  have d: "fetchHgvsAlternatives exCached exV300 (Some ''job1'') (Fulfilled exAlts) (Fulfilled ()) = []"
    using g4 by (intro w4) simp
  from g1 a b g3 c g4 d show ?thesis by (intro conjI)
qed


text \<open>
  C4. A failed save should leave the success state of a successful lookup in place. The
  code does write the success state and report the success before it saves, and without
  a job id, when nothing is saved, that state is final. But the save is awaited inside
  the \<^verbatim>\<open>try\<close> block of the lookup: if a job id is present and
  \<^verbatim>\<open>addJobHgvsAlternatives\<close> fails, the \<^verbatim>\<open>catch\<close> block written for a failed lookup
  runs and overwrites the entry of the key with the error state and no alternatives.
  The success state survives only when the save succeeds or is not attempted.
\<close>

theorem persist_failure_sets_error:
  assumes "getHgvs c v = [primary]" and "CHR '':'' \<in> set primary"
  shows "(truthy jId \<longrightarrow>
            getHgvsState (run (fetchHgvsAlternatives c v jId (Fulfilled alts) Rejected) c') v =
              Some \<lparr>loading = False, error = True, alternatives = []\<rparr>) \<and>
         (\<not> truthy jId \<longrightarrow>
            getHgvsState (run (fetchHgvsAlternatives c v jId (Fulfilled alts) persist) c') v =
              Some \<lparr>loading = False, error = False, alternatives = alts\<rparr>) \<and>
         getHgvsState (run (fetchHgvsAlternatives c v jId (Fulfilled alts) (Fulfilled ())) c') v =
           Some \<lparr>loading = False, error = False, alternatives = alts\<rparr> \<and>
         getHgvsState (run (take 3 (fetchHgvsAlternatives c v jId (Fulfilled alts) persist)) c') v =
           Some \<lparr>loading = False, error = False, alternatives = alts\<rparr>"
proof -
  from assms have "length (getHgvs c v) = 1" and "CHR '':'' \<in> set (getHgvs c v ! 0)"
    by simp_all
  note f = fetchHgvsAlternatives_proceeds [OF this]
  show ?thesis unfolding f
    by (simp add: afterLookup_def catchBlock_def getHgvsState_def successState_def
        errorState_def numeral_3_eq_3)
qed

theorem persist_failure_sets_error_witness:
  "getHgvsState (run (fetchHgvsAlternatives exComponent exV100 (Some ''job1'')
       (Fulfilled exAlts) Rejected) exComponent) exV100 =
     Some \<lparr>loading = False, error = True, alternatives = []\<rparr> \<and>
   getHgvsState (run (fetchHgvsAlternatives exComponent exV100 None
       (Fulfilled exAlts) Rejected) exComponent) exV100 =
     Some \<lparr>loading = False, error = False, alternatives = exAlts\<rparr>"
proof -
  have g1: "getHgvs exComponent exV100 = [''NM_001:c.100A>G'']" by code_simp
  have c1: "CHR '':'' \<in> set ''NM_001:c.100A>G''" by simp
  have t: "truthy (Some ''job1'')" "\<not> truthy None" by (simp_all add: truthy_def)
  from persist_failure_sets_error [OF g1 c1, of "Some ''job1''" exAlts exComponent Rejected] t(1)
  have 1: "getHgvsState (run (fetchHgvsAlternatives exComponent exV100 (Some ''job1'')
       (Fulfilled exAlts) Rejected) exComponent) exV100 =
     Some \<lparr>loading = False, error = True, alternatives = []\<rparr>" by blast
  from persist_failure_sets_error [OF g1 c1, of None exAlts exComponent Rejected] t(2)
  have 2: "getHgvsState (run (fetchHgvsAlternatives exComponent exV100 None
       (Fulfilled exAlts) Rejected) exComponent) exV100 =
     Some \<lparr>loading = False, error = False, alternatives = exAlts\<rparr>" by blast
  from 1 2 show ?thesis by (rule conjI)
qed

theorem persist_failure_trace:
  "fetchHgvsAlternatives exComponent exV100 (Some ''job1'') (Fulfilled exAlts) Rejected =
     [SetHgvsState ''NM_001:c.100A>G'' \<lparr>loading = True, error = False, alternatives = []\<rparr>,
      GetHgvsAlternatives ''NM_001'' 100 ''A'' ''G'',
      SetHgvsState ''NM_001:c.100A>G'' \<lparr>loading = False, error = False, alternatives = exAlts\<rparr>,
      ToastShow ''Alternatives received'' ''success'',
      AddJobHgvsAlternatives ''job1'' ''NM_001:c.100A>G'' exAlts,
      ConsoleError,
      SetHgvsState ''NM_001:c.100A>G'' \<lparr>loading = False, error = True, alternatives = []\<rparr>] \<and>
   getHgvsState (run (fetchHgvsAlternatives exComponent exV100 (Some ''job1'')
       (Fulfilled exAlts) Rejected) exComponent) exV100 =
     Some \<lparr>loading = False, error = True, alternatives = []\<rparr>"
  by code_simp

text \<open>
  C5 (as amended). Every run of the constructor's effect replaces the whole cache by the
  seed computed from the \<open>hgvsAlternatives\<close> input. Between two runs entries only
  accumulate: over any sequence of operations without a run of the effect no key leaves
  the cache, and the entry of a key is unchanged unless one of the operations is a state
  write for that key; the state writes of a fetch are all for the key of its record.
\<close>

theorem cache_between_effect_runs:
  "hgvsStates (step (InputsChanged vs inputAlts) c) = seedStates inputAlts \<and>
   ((\<forall>op \<in> set ops. \<not> isInputsChanged op) \<longrightarrow>
      dom (hgvsStates c) \<subseteq> dom (hgvsStates (session ops c)) \<and>
      ((\<forall>op \<in> set ops. \<not> writesKey k op) \<longrightarrow>
         hgvsStates (session ops c) k = hgvsStates c k)) \<and>
   (SetHgvsState k' st \<in> set (fetchHgvsAlternatives c v jId lookup persist) \<longrightarrow>
      k' = getHgvsKey v)"
proof (intro conjI impI)
  show "hgvsStates (step (InputsChanged vs inputAlts) c) = seedStates inputAlts"
    by (simp add: hgvsStates_constructorEffect)
next
  assume "\<forall>op \<in> set ops. \<not> isInputsChanged op"
  then show "dom (hgvsStates c) \<subseteq> dom (hgvsStates (session ops c))"
    by (rule dom_session)
next
  assume "\<forall>op \<in> set ops. \<not> isInputsChanged op" and "\<forall>op \<in> set ops. \<not> writesKey k op"
  then show "hgvsStates (session ops c) k = hgvsStates c k"
    by (rule hgvsStates_session)
next
  assume "SetHgvsState k' st \<in> set (fetchHgvsAlternatives c v jId lookup persist)"
  then show "k' = getHgvsKey v"
    by (rule fetchHgvsAlternatives_keys)
qed

theorem cache_between_effect_runs_witness:
  "hgvsStates exCached ''300'' = Some (successState [''NM_001:c.300G>C'', ''ENST01:c.300G>C'']) \<and>
   hgvsStates (session exOps exCached) ''300'' =
     Some (successState [''NM_001:c.300G>C'', ''ENST01:c.300G>C'']) \<and>
   hgvsStates (session exOps exCached) ''NM_001:c.100A>G'' = Some (successState exAlts) \<and>
   hgvsStates (step (InputsChanged [exV100, exV400] None) (session exOps exCached)) = Map.empty"
proof -
  have i: "\<forall>op \<in> set exOps. \<not> isInputsChanged op" by (simp add: exOps_def)
  have w: "\<forall>op \<in> set exOps. \<not> writesKey ''300'' op" by (simp add: exOps_def)
  have 0: "hgvsStates exCached ''300'' = Some (successState [''NM_001:c.300G>C'', ''ENST01:c.300G>C''])"
    by (simp add: exCached_def)
  from cache_between_effect_runs [of "[exV100, exV400]" None "session exOps exCached" exOps "''300''"
      "''x''" loadingState exV100 None Rejected Rejected]
  have e: "hgvsStates (step (InputsChanged [exV100, exV400] None) (session exOps exCached)) =
      seedStates None" by blast
  from cache_between_effect_runs [of "[]" None exCached exOps "''300''"
      "''x''" loadingState exV100 None Rejected Rejected] i w
  have 1: "hgvsStates (session exOps exCached) ''300'' = hgvsStates exCached ''300''" by blast
  have 2: "hgvsStates (session exOps exCached) ''NM_001:c.100A>G'' = Some (successState exAlts)"
    by (simp add: session_def exOps_def setFilter_def updateSearchTerm_def
        hgvsStates_ensureVariantVisible)
  from 0 1 2 e show ?thesis by (simp add: seedStates_def)
qed

theorem cache_eviction_counterexample:
  "getHgvsState (run (fetchHgvsAlternatives exComponent exV100 None (Fulfilled exAlts) Rejected)
      exComponent) exV100 = Some (successState exAlts) \<and>
   getHgvsState (step (InputsChanged [exV100, exV400] (Some []))
      (run (fetchHgvsAlternatives exComponent exV100 None (Fulfilled exAlts) Rejected)
        exComponent)) exV100 = None"
  by code_simp

text \<open>
  C2 (as amended). \<open>getHgvsKey\<close> is computed from the raw \<open>hgvs\<close> field alone: it is the
  decimal position when the raw sequence is empty or the field is a blank string (a
  string that is empty after \<^verbatim>\<open>trim\<close>), and the first entry of the raw sequence
  otherwise. When the cache holds no non-empty alternatives under that key, the key is
  the decimal position if the resolved sequence is empty or the field is a blank string,
  and the first entry of the resolved sequence otherwise. Two records whose raw
  sequences are not empty and start with the same entry, neither field a blank string,
  have the same key.
\<close>

theorem getHgvsKey_from_raw:
  "getHgvsKey v =
     (if rawHgvs v = [] \<or> (\<exists>s. hgvs v = Some (HgvsString s) \<and> trim s = [])
      then toString (position v) else hd (rawHgvs v)) \<and>
   ((\<forall>st. hgvsStates c (getHgvsKey v) = Some st \<longrightarrow> alternatives st = [])
      \<longrightarrow> getHgvsKey v =
            (if getHgvs c v = [] \<or> (\<exists>s. hgvs v = Some (HgvsString s) \<and> trim s = [])
             then toString (position v) else hd (getHgvs c v))) \<and>
   (rawHgvs v \<noteq> [] \<and> rawHgvs w \<noteq> [] \<and> hd (rawHgvs v) = hd (rawHgvs w) \<and>
    (\<forall>s. hgvs v = Some (HgvsString s) \<longrightarrow> trim s \<noteq> []) \<and>
    (\<forall>s. hgvs w = Some (HgvsString s) \<longrightarrow> trim s \<noteq> [])
      \<longrightarrow> getHgvsKey v = getHgvsKey w)"
proof (intro conjI impI)
  show "getHgvsKey v =
     (if rawHgvs v = [] \<or> (\<exists>s. hgvs v = Some (HgvsString s) \<and> trim s = [])
      then toString (position v) else hd (rawHgvs v))"
    by (rule getHgvsKey_raw)
next
  assume "\<forall>st. hgvsStates c (getHgvsKey v) = Some st \<longrightarrow> alternatives st = []"
  then have g: "getHgvs c v = rawHgvs v" by (rule getHgvs_uncached)
  show "getHgvsKey v =
            (if getHgvs c v = [] \<or> (\<exists>s. hgvs v = Some (HgvsString s) \<and> trim s = [])
             then toString (position v) else hd (getHgvs c v))"
    unfolding g by (rule getHgvsKey_raw)
next
  assume "rawHgvs v \<noteq> [] \<and> rawHgvs w \<noteq> [] \<and> hd (rawHgvs v) = hd (rawHgvs w) \<and>
    (\<forall>s. hgvs v = Some (HgvsString s) \<longrightarrow> trim s \<noteq> []) \<and>
    (\<forall>s. hgvs w = Some (HgvsString s) \<longrightarrow> trim s \<noteq> [])"
  then show "getHgvsKey v = getHgvsKey w"
    unfolding getHgvsKey_raw [of v] getHgvsKey_raw [of w] by auto
qed

theorem getHgvsKey_from_raw_witness:
  "getHgvsKey exV100 = ''NM_001:c.100A>G'' \<and>
   getHgvs exComponent exV100 = [''NM_001:c.100A>G''] \<and>
   getHgvsKey exV300 = ''300'' \<and>
   rawHgvs exV400 = [''NM_001:c.300G>C''] \<and>
   rawHgvs exV500 = [''NM_001:c.300G>C'', ''ENST01:c.300G>C''] \<and>
   getHgvsKey exV400 = getHgvsKey exV500 \<and>
   rawHgvs exV700 = [[CHR '' '', CHR 0xA0]] \<and>
   getHgvsKey exV700 = ''700''"
proof -
  have r7: "rawHgvs exV700 = [[CHR '' '', CHR 0xA0]] \<and>
      hgvs exV700 = Some (HgvsString [CHR '' '', CHR 0xA0])"
    by code_simp
  have t7: "trim [CHR '' '', CHR 0xA0] = []" by code_simp
  have p7: "toString (position exV700) = ''700''" by code_simp
  from getHgvsKey_from_raw [of exV700 exComponent exV700] r7 t7 p7
  have 7: "getHgvsKey exV700 = ''700''" by simp
  have r1: "rawHgvs exV100 = [''NM_001:c.100A>G''] \<and> hgvs exV100 = Some (HgvsString ''NM_001:c.100A>G'')"
    by code_simp
  have t1: "trim ''NM_001:c.100A>G'' \<noteq> []" by code_simp
  have g1: "getHgvs exComponent exV100 = [''NM_001:c.100A>G'']" by code_simp
  have r3: "rawHgvs exV300 = []" by code_simp
  have p3: "toString (position exV300) = ''300''" by code_simp
  have r4: "rawHgvs exV400 = [''NM_001:c.300G>C''] \<and> hgvs exV400 = Some (HgvsString ''NM_001:c.300G>C'')"
    by code_simp
  have t4: "trim ''NM_001:c.300G>C'' \<noteq> []" by code_simp
  have r5: "rawHgvs exV500 = [''NM_001:c.300G>C'', ''ENST01:c.300G>C''] \<and>
      hgvs exV500 = Some (HgvsArray [''NM_001:c.300G>C'', ''ENST01:c.300G>C''])"
    by code_simp
  have e: "\<forall>st. hgvsStates exComponent (getHgvsKey exV100) = Some st \<longrightarrow> alternatives st = []"
    by (simp add: exComponent_def)
  from getHgvsKey_from_raw [of exV100 exComponent exV100] e r1 t1 g1
  have 1: "getHgvsKey exV100 = ''NM_001:c.100A>G''" by simp
  from getHgvsKey_from_raw [of exV300 exComponent exV300] r3 p3
  have 3: "getHgvsKey exV300 = ''300''" by simp
  have 4: "getHgvsKey exV400 = getHgvsKey exV500"
    by (rule getHgvsKey_from_raw [of exV400 exComponent exV500, THEN conjunct2, THEN conjunct2, THEN mp])
      (simp add: r4 t4 r5)
  from 1 g1 3 r4 r5 4 r7 7 show ?thesis by simp
qed

theorem getHgvsKey_resolved_counterexample:
  "getHgvs exCached exV300 = [''NM_001:c.300G>C'', ''ENST01:c.300G>C''] \<and>
   getHgvsKey exV300 = ''300'' \<and>
   getHgvs exCached exV400 = [''NM_001:c.300G>C''] \<and>
   getHgvsKey exV400 = ''NM_001:c.300G>C''"
  by code_simp

text \<open>
  C3. \<open>ensureVariantVisible\<close> is meant to reset exactly the dimensions that exclude the
  record and to change nothing for a record that already passes. Its type block treats
  only the exact string \<open>All\<close> as neutral, while \<open>applyFilters\<close> lower-cases the selection
  first and treats every spelling of \<open>all\<close> as neutral. With the type selection \<open>all\<close> the
  record below passes the filters and its type dimension does not exclude it, yet
  \<open>ensureVariantVisible\<close> returns true and rewrites the selection to \<open>All\<close>. For every
  other type selection the property holds: lemmas \<open>ensureVariantVisible_minimal\<close>,
  \<open>ensureVariantVisible_unchanged\<close> and \<open>ensureVariantVisible_passes\<close>.
\<close>

theorem ensureVariantVisible_resets_neutral_type:
  "passesFilters (setFilter ''all'' exComponent) no_overrides exV100 \<and>
   \<not> excludesType (setFilter ''all'' exComponent) exV100 \<and>
   fst (ensureVariantVisible (setFilter ''all'' exComponent) exV100) = True \<and>
   filterType (setFilter ''all'' exComponent) = ''all'' \<and>
   filterType (snd (ensureVariantVisible (setFilter ''all'' exComponent) exV100)) = ''All''"
  by code_simp

end
